theory Spec2Isabelle
  imports Complex_Main "HOL-Library.Multiset" "HOL-Library.Sublist"
begin

section \<open>Random sampling helpers of the chat route\<close>

text \<open>
  The route draws every random value from \<open>Math.random()\<close>, which yields a number
  \<open>r\<close> with \<open>0 \<le> r < 1\<close>. The source of randomness is made explicit: a generator is
  the sequence of the draws still to come, and every function that calls
  \<open>Math.random()\<close> takes the generator and returns the rest of it. A draw is a real
  number; the route only ever uses \<open>Math.floor(r * n)\<close> for a small positive integer
  \<open>n\<close>. The product is taken exactly here, where the route rounds it to a double
  before \<open>Math.floor\<close>: for a draw that lies within a rounding error below a multiple
  of \<open>1 / n\<close> the route's index is one more than the index computed here. The
  rounded product of a double below 1 and \<open>n\<close> is still below \<open>n\<close>, and the properties
  below are bounds on the index and membership in a pool, which hold for every index
  below \<open>n\<close>; they do not say which entry a given draw selects.
\<close>

type_synonym rng = "nat \<Rightarrow> real"

definition valid_rng :: "rng \<Rightarrow> bool" where
  "valid_rng g = (\<forall>n. 0 \<le> g n \<and> g n < 1)"

definition Math_random :: "rng \<Rightarrow> real \<times> rng" where
  "Math_random g = (g 0, \<lambda>n. g (Suc n))"

text \<open>\<open>Math.floor(Math.random() * n)\<close>, the only way the route consumes a draw.\<close>

definition random_index :: "nat \<Rightarrow> rng \<Rightarrow> nat \<times> rng" where
  "random_index n g = (case Math_random g of (r, g') \<Rightarrow> (nat \<lfloor>r * real n\<rfloor>, g'))"

text \<open>
  \<open>randomOf(items) = items[Math.floor(Math.random() * items.length)]\<close>. The route calls
  it on its constant, non-empty pools only, where the index is in range.
\<close>

definition randomOf :: "'a list \<Rightarrow> rng \<Rightarrow> 'a \<times> rng" where
  "randomOf items g = (case random_index (length items) g of (i, g') \<Rightarrow> (items ! i, g'))"

text \<open>
  The loop of \<open>takeRandom\<close>: \<open>for (let i = pool.length - 1; i > 0; i--)\<close> with the body
  \<open>j = Math.floor(Math.random() * (i + 1)); [pool[i], pool[j]] = [pool[j], pool[i]]\<close>.
  The first argument is the loop variable \<open>i\<close>; the right-hand side of the swap reads
  the pool before either assignment.
\<close>

fun shuffle_loop :: "nat \<Rightarrow> 'a list \<Rightarrow> rng \<Rightarrow> 'a list \<times> rng" where
  "shuffle_loop 0 pool g = (pool, g)"
| "shuffle_loop (Suc k) pool g =
     (case random_index (Suc k + 1) g of
        (j, g') \<Rightarrow> shuffle_loop k (pool[Suc k := pool ! j, j := pool ! Suc k]) g')"

definition takeRandom :: "'a list \<Rightarrow> nat \<Rightarrow> rng \<Rightarrow> 'a list \<times> rng" where
  "takeRandom items cnt g =
     (case shuffle_loop (length items - 1) items g of
        (pool, g') \<Rightarrow> (take (min cnt (length pool)) pool, g'))"

text \<open>\<open>items.map(f)\<close> where \<open>f\<close> itself draws random numbers, left to right.\<close>

fun map_random :: "('a \<Rightarrow> rng \<Rightarrow> 'b \<times> rng) \<Rightarrow> 'a list \<Rightarrow> rng \<Rightarrow> 'b list \<times> rng" where
  "map_random f [] g = ([], g)"
| "map_random f (x # xs) g =
     (case f x g of (y, g') \<Rightarrow> (case map_random f xs g' of (ys, g'') \<Rightarrow> (y # ys, g'')))"

section \<open>Content pools\<close>

text \<open>
  Strings are byte lists; the two em dashes of the pools are written as their three
  UTF-8 bytes.
\<close>

definition em_dash :: string where
  "em_dash = [CHR 0xE2, CHR 0x80, CHR 0x94]"

definition conditionPool :: "string list" where
  "conditionPool =
    [''radiant auroras with sporadic ion gusts'',
     ''levitating mist and crystalline snowfall'',
     ''glittering micro-meteor drizzle'',
     ''calm plasma tide with soft starlight'',
     ''low-gravity fog banks swirling over the horizon'',
     ''polar light storms tracing the skyline'',
     ''nebula haze with intermittent gamma sparkles'']"

definition windPool :: "string list" where
  "windPool =
    [''solar breeze at 18 mph'',
     ''ion drift steady at 9 mph'',
     ''crosswind bursts peaking at 24 mph'',
     ''mag-lev gusts oscillating at 12 mph'',
     ''vacuum pockets causing gentle downdrafts'',
     ''orbit-synced zephyrs circling at 15 mph'']"

definition radiationPool :: "string list" where
  "radiationPool =
    [''radiation index 3 (shielded comfort)'',
     ''radiation index 5 (medium flare activity)'',
     ''radiation index 7 (reinforce hull plating)'',
     ''trace cosmic rays; recommend polarized lenses'',
     ''gamma sparkle showers (short exposure advised)'']"

definition advisoryPool :: "string list" where
  "advisoryPool =
    [''Visibility remains crystalline within 20 klicks.'',
     ''Flux monitors stable; optimal for sightseeing.'',
     ''Expect static buildup on exposed alloys.'',
     ''Great time for sub-orbital glides and photo ops.'',
     ''Solar sails may flutter'' @ em_dash @ ''tighten your rigging.'',
     ''Recommended to enable adaptive gravity boots.'']"

datatype HazardSeverity = Low | Elevated | Critical

record HazardScanItem =
  name :: string
  severity :: HazardSeverity
  guidance :: string

definition hazardPool :: "HazardScanItem list" where
  "hazardPool =
    [\<lparr>name = ''Ion Storm Corridor'', severity = Critical,
      guidance = ''Delay travel or increase shield harmonics by 30%.''\<rparr>,
     \<lparr>name = ''Rogue Micro-Meteor Swarm'', severity = Elevated,
      guidance = ''Activate kinetic deflectors; reduce speed under 300 knots.''\<rparr>,
     \<lparr>name = ''Solar Flare Echo'', severity = Elevated,
      guidance = ''Switch to reflective plating and route through the dusk-side.''\<rparr>,
     \<lparr>name = ''Gravity Tide Surge'', severity = Critical,
      guidance = ''Anchor vessels and reschedule landings two cycles later.''\<rparr>,
     \<lparr>name = ''Frozen Plasma Sheen'', severity = Low,
      guidance = ''Engage traction fields; watch for slick docking pads.''\<rparr>,
     \<lparr>name = ''Resonant Aurora Current'', severity = Low,
      guidance = ''Tune communicators to backup spectrum to avoid drift.''\<rparr>]"

text \<open>An entry of \<open>eventPool\<close> has a title and a detail; the tool adds the time.\<close>

record PoolEvent =
  title :: string
  detail :: string

record CelestialEvent = PoolEvent +
  time :: string

definition eventPool :: "PoolEvent list" where
  "eventPool =
    [\<lparr>title = ''Europa Ice Bloom'',
      detail = ''Subsurface geysers crystallize mid-arc, refracting cerulean light.''\<rparr>,
     \<lparr>title = ''Leviathan Comet Flyby'',
      detail = ''A sapphire tail cuts across the sky'' @ em_dash
        @ ''ideal for panoramic observation decks.''\<rparr>,
     \<lparr>title = ''Titan Dune Choir'',
      detail = ''Ion winds whistle across dunes, creating harmonic resonance at dusk.''\<rparr>,
     \<lparr>title = ''Rings Bazaar Lightfall'',
      detail = ''Saturn's rings cast shimmering patterns over local markets.''\<rparr>,
     \<lparr>title = ''Aurora Cascade Pulse'',
      detail = ''Aurora curtains ripple in layered waves, best seen at high altitude.''\<rparr>,
     \<lparr>title = ''Neptune Halo Mirage'',
      detail = ''An atmospheric reflection creates a ghostly second halo for six minutes.''\<rparr>]"

definition eventTimePool :: "string list" where
  "eventTimePool =
    [''Orbit 22.4'',
     ''GST + 02h'',
     ''Local dusk cycle'',
     ''Solar noon'',
     ''Three pulses past midnight'',
     ''Blue giant rising'']"

text \<open>The field \<open>note\<close> of the source is \<open>wnote\<close> here (\<open>note\<close> is reserved).\<close>

record NavigationWindow =
  label :: string
  window :: string
  wnote :: string

definition windowPool :: "NavigationWindow list" where
  "windowPool =
    [\<lparr>label = ''Calm Corridor'', window = ''21:10 - 22:05 GST'',
      wnote = ''Ion flux dips below 10%; ideal for docking maneuvers.''\<rparr>,
     \<lparr>label = ''Polar Drift Lane'', window = ''04:40 - 05:35 GST'',
      wnote = ''Gravity tides neutralize, opening a smooth northbound path.''\<rparr>,
     \<lparr>label = ''Sunrise Slipstream'', window = ''08:05 - 08:50 GST'',
      wnote = ''Solar sail efficiency peaks thanks to coherent breezes.''\<rparr>,
     \<lparr>label = ''Nightglow Passage'', window = ''16:45 - 17:25 GST'',
      wnote = ''Nebula particulates thin out, boosting sensor clarity.''\<rparr>,
     \<lparr>label = ''Crystalline Approach'', window = ''11:10 - 12:00 GST'',
      wnote = ''Docking pads defrost; minimal plasma sheen expected.''\<rparr>]"

section \<open>Tool results and the tools' execute functions\<close>

text \<open>
  Each tool's \<open>execute\<close> receives the input its schema has validated. The validated
  input of the four location tools is an object with the one string field
  \<open>location\<close>.
\<close>

record LocationInput =
  location :: string

text \<open>
  The result fields that share a name with an input field carry a prefix:
  \<open>w_location\<close> is \<open>WeatherResult.location\<close>, \<open>h_location\<close> is
  \<open>HazardScanReport.location\<close>.
\<close>

record WeatherResult =
  w_location :: string
  temperature :: int
  conditions :: string
  wind :: string
  radiation :: string
  advisory :: string

record HazardScanReport =
  h_location :: string
  riskLevel :: HazardSeverity
  hazards :: "HazardScanItem list"

record CelestialEventFeed =
  events :: "CelestialEvent list"

record NavigationWindowGuide =
  windows :: "NavigationWindow list"

record WeatherWearItem =
  w_title :: string
  description :: string

record WeatherWear =
  suggestions :: "WeatherWearItem list"

text \<open>
  \<open>weather\<close>: the object literal is evaluated field by field, so the draws are taken in
  the order temperature, conditions, wind, radiation, advisory.
\<close>

definition weather_execute :: "LocationInput \<Rightarrow> rng \<Rightarrow> WeatherResult \<times> rng" where
  "weather_execute inp g0 =
     (case random_index 220 g0 of (t, g1) \<Rightarrow>
      case randomOf conditionPool g1 of (c, g2) \<Rightarrow>
      case randomOf windPool g2 of (w, g3) \<Rightarrow>
      case randomOf radiationPool g3 of (r, g4) \<Rightarrow>
      case randomOf advisoryPool g4 of (a, g5) \<Rightarrow>
        (\<lparr>w_location = location inp, temperature = 42 + int t, conditions = c,
          wind = w, radiation = r, advisory = a\<rparr>, g5))"

definition hazardScan_execute :: "LocationInput \<Rightarrow> rng \<Rightarrow> HazardScanReport \<times> rng" where
  "hazardScan_execute inp g0 =
     (case randomOf [Low, Elevated, Critical] g0 of (lvl, g1) \<Rightarrow>
      case takeRandom hazardPool 3 g1 of (hs, g2) \<Rightarrow>
        (\<lparr>h_location = location inp, riskLevel = lvl,
          hazards = map (\<lambda>hazard. hazard\<lparr>guidance := guidance hazard\<rparr>) hs\<rparr>, g2))"

definition navigationWindows_execute ::
  "LocationInput \<Rightarrow> rng \<Rightarrow> NavigationWindowGuide \<times> rng" where
  "navigationWindows_execute inp g0 =
     (case takeRandom windowPool 3 g0 of (ws, g1) \<Rightarrow>
        (\<lparr>windows =
            map (\<lambda>w. w\<lparr>wnote := wnote w @ '' ('' @ location inp @ '').''\<rparr>) ws\<rparr>, g1))"

text \<open>\<open>celestialEvents\<close>: \<open>execute: async () => ...\<close> takes no parameter at all.\<close>

definition celestialEvents_execute ::
  "LocationInput \<Rightarrow> rng \<Rightarrow> CelestialEventFeed \<times> rng" where
  "celestialEvents_execute inp g0 =
     (case takeRandom eventPool 3 g0 of (es, g1) \<Rightarrow>
      case map_random
             (\<lambda>event g. case randomOf eventTimePool g of
                (t, g') \<Rightarrow> (PoolEvent.extend event (CelestialEvent.fields t), g'))
             es g1 of (evs, g2) \<Rightarrow>
        (\<lparr>events = evs\<rparr>, g2))"

definition whatToWear_execute :: "WeatherWear \<Rightarrow> WeatherWear" where
  "whatToWear_execute inp = \<lparr>suggestions = suggestions inp\<rparr>"

section \<open>Tool inputs: the schemas of the route\<close>

text \<open>
  A tool receives the arguments the model produced as a JSON value; the tool's
  \<open>inputSchema\<close> decides whether \<open>execute\<close> is called with them. A schema either
  yields the validated input or the list of the constraints the value violates.
\<close>

datatype json =
  JNull
  | JBool bool
  | JNumber int
  | JString string
  | JArray "json list"
  | JObject "(string \<times> json) list"

text \<open>\<open>z.object({ location: z.string() })\<close>, the schema of the four location tools.\<close>

definition location_schema :: "json \<Rightarrow> string list + LocationInput" where
  "location_schema raw =
     (case raw of
        JObject fs \<Rightarrow>
          (case map_of fs ''location'' of
             Some (JString s) \<Rightarrow> Inr \<lparr>location = s\<rparr>
           | _ \<Rightarrow> Inl [''location: expected string''])
      | _ \<Rightarrow> Inl [''expected object''])"

text \<open>\<open>z.object({ title: z.string(), description: z.string() })\<close>, one suggestion.\<close>

definition suggestion_schema :: "json \<Rightarrow> string list + WeatherWearItem" where
  "suggestion_schema raw =
     (case raw of
        JObject fs \<Rightarrow>
          (case (map_of fs ''title'', map_of fs ''description'') of
             (Some (JString t), Some (JString d)) \<Rightarrow> Inr \<lparr>w_title = t, description = d\<rparr>
           | (Some (JString t), _) \<Rightarrow> Inl [''description: expected string'']
           | (_, Some (JString d)) \<Rightarrow> Inl [''title: expected string'']
           | _ \<Rightarrow> Inl [''title: expected string'', ''description: expected string''])
      | _ \<Rightarrow> Inl [''expected object''])"

definition issues_of :: "(string list + 'a) list \<Rightarrow> string list" where
  "issues_of rs = concat (map (\<lambda>r. case r of Inl is \<Rightarrow> is | Inr v \<Rightarrow> []) rs)"

definition values_of :: "(string list + 'a) list \<Rightarrow> 'a list" where
  "values_of rs = concat (map (\<lambda>r. case r of Inl is \<Rightarrow> [] | Inr v \<Rightarrow> [v]) rs)"

text \<open>
  \<open>z.object({ suggestions: z.array(<suggestion>).min(1).max(3) })\<close>, the schema of
  \<open>whatToWear\<close>.
\<close>

definition whatToWear_schema :: "json \<Rightarrow> string list + WeatherWear" where
  "whatToWear_schema raw =
     (case raw of
        JObject fs \<Rightarrow>
          (case map_of fs ''suggestions'' of
             Some (JArray xs) \<Rightarrow>
               (let rs = map suggestion_schema xs;
                    issues = issues_of rs
                      @ (if length xs < 1 then [''suggestions: expected at least 1 item''] else [])
                      @ (if 3 < length xs then [''suggestions: expected at most 3 items''] else [])
                in if issues = [] then Inr \<lparr>suggestions = values_of rs\<rparr> else Inl issues)
           | _ \<Rightarrow> Inl [''suggestions: expected array''])
      | _ \<Rightarrow> Inl [''expected object''])"

text \<open>The keys of the \<open>tools\<close> object passed to \<open>streamText\<close>.\<close>

definition toolNames :: "string list" where
  "toolNames = [''weather'', ''hazardScan'', ''navigationWindows'', ''celestialEvents'',
                ''whatToWear'']"

datatype toolInput = LocationIn LocationInput | WearIn WeatherWear

datatype toolOutput =
  WeatherOut WeatherResult
  | HazardOut HazardScanReport
  | NavigationOut NavigationWindowGuide
  | CelestialOut CelestialEventFeed
  | WearOut WeatherWear

section \<open>Messages and parts\<close>

datatype toolState = InputStreaming | InputAvailable | OutputAvailable | OutputError

text \<open>The four state strings the page compares \<open>part.state\<close> with.\<close>

fun stateName :: "toolState \<Rightarrow> string" where
  "stateName InputStreaming = ''input-streaming''"
| "stateName InputAvailable = ''input-available''"
| "stateName OutputAvailable = ''output-available''"
| "stateName OutputError = ''output-error''"

record ToolPart =
  toolName :: string
  state :: toolState
  tool_input :: json
  tool_output :: "toolOutput option"
  errorText :: "string option"

text \<open>
  \<open>tool_input\<close> and \<open>tool_output\<close> are the fields \<open>input\<close> and \<open>output\<close> of a tool
  part (\<open>output\<close> is reserved).
\<close>

datatype part = Text string | Tool ToolPart

datatype role = User | Assistant

record message =
  msg_id :: string
  role :: role
  parts :: "part list"

text \<open>
  The page receives the messages from the chat hook and reads their parts as untyped
  values (\<open>message.parts ?? []\<close>, cast to \<open>Array<any>\<close>). Of a part the counter reads
  \<open>type\<close>, which it first tests to be a string, and \<open>state\<close>; a message may come
  without \<open>parts\<close>. \<open>part_type\<close> is \<open>None\<close> when \<open>type\<close> is absent or not a string,
  \<open>part_state\<close> is \<open>None\<close> when \<open>state\<close> is absent or not a string. Parts of any type
  are admitted, such as \<open>dynamic-tool\<close>, \<open>reasoning\<close> or \<open>step-start\<close>.
\<close>

record uiPart =
  part_type :: "string option"
  part_state :: "string option"

record uiMessage =
  ui_parts :: "uiPart list option"

text \<open>
  How the parts of the data model appear to the page: \<open>part.type\<close> is \<open>"text"\<close> for a
  text part and \<open>"tool-" + toolName\<close> for a tool part; \<open>part.state\<close> is the state string
  of a tool part and absent from a text part.
\<close>

fun partType :: "part \<Rightarrow> string" where
  "partType (Text t) = ''text''"
| "partType (Tool tp) = ''tool-'' @ toolName tp"

fun partState :: "part \<Rightarrow> string option" where
  "partState (Text t) = None"
| "partState (Tool tp) = Some (stateName (state tp))"

definition view_part :: "part \<Rightarrow> uiPart" where
  "view_part p = \<lparr>part_type = Some (partType p), part_state = partState p\<rparr>"

definition view_message :: "message \<Rightarrow> uiMessage" where
  "view_message m = \<lparr>ui_parts = Some (map view_part (parts m))\<rparr>"

definition startsWith :: "string \<Rightarrow> string \<Rightarrow> bool" where
  "startsWith s p = (take (length p) s = p)"

section \<open>The page: telemetry counter and send handlers\<close>

text \<open>\<open>message.parts ?? []\<close>.\<close>

definition parts_or_empty :: "uiMessage \<Rightarrow> uiPart list" where
  "parts_or_empty message = (case ui_parts message of None \<Rightarrow> [] | Some ps \<Rightarrow> ps)"

text \<open>
  \<open>toolActivations\<close>: \<open>messages.reduce((count, message) => count + parts.filter(...).length, 0)\<close>
  where the filter keeps a part when \<open>typeof part?.type === "string"\<close>,
  \<open>part.type.startsWith("tool-")\<close> and \<open>part.state === "output-available"\<close>.
\<close>

definition toolActivations :: "uiMessage list \<Rightarrow> nat" where
  "toolActivations messages =
     foldl (\<lambda>cnt message.
              cnt + length (filter (\<lambda>part. (case part_type part of
                                               None \<Rightarrow> False
                                             | Some t \<Rightarrow> startsWith t ''tool-'')
                                        \<and> part_state part = Some ''output-available'')
                                   (parts_or_empty message)))
           0 messages"

text \<open>
  The count in the words of the spec (section 6): the number of parts, over all
  messages, whose state is \<open>output-available\<close>.
\<close>

definition output_available_count :: "uiMessage list \<Rightarrow> nat" where
  "output_available_count messages =
     length (filter (\<lambda>part. part_state part = Some ''output-available'')
                    (concat (map parts_or_empty messages)))"

text \<open>The parts whose \<open>type\<close> is a string that starts with \<open>tool-\<close>.\<close>

definition tool_typed :: "uiPart \<Rightarrow> bool" where
  "tool_typed part = (case part_type part of None \<Rightarrow> False | Some t \<Rightarrow> startsWith t ''tool-'')"

text \<open>
  The state of the page the two send handlers work on: the draft in the text area
  (\<open>input\<close> in the source), the status reported by the chat hook, and the texts handed
  to \<open>sendMessage\<close> so far, in call order.
\<close>

record console =
  draft :: string
  status :: string
  sendMessage_calls :: "string list"

definition isStreaming :: "console \<Rightarrow> bool" where
  "isStreaming c = (status c = ''streaming'' \<or> status c = ''loading'')"

text \<open>
  \<open>String.prototype.trim\<close> removes the white space and line terminator code points at
  both ends. Strings are byte lists here, so each code point is the byte sequence of
  its UTF-8 encoding: U+0009 to U+000D, U+0020, U+00A0, U+1680, U+2000 to U+200A,
  U+2028, U+2029, U+202F, U+205F, U+3000 and U+FEFF.
\<close>

definition white_space :: "string list" where
  "white_space =
    [[CHR 0x09], [CHR 0x0A], [CHR 0x0B], [CHR 0x0C], [CHR 0x0D], [CHR 0x20],
     [CHR 0xC2, CHR 0xA0],
     [CHR 0xE1, CHR 0x9A, CHR 0x80],
     [CHR 0xE2, CHR 0x80, CHR 0x80], [CHR 0xE2, CHR 0x80, CHR 0x81],
     [CHR 0xE2, CHR 0x80, CHR 0x82], [CHR 0xE2, CHR 0x80, CHR 0x83],
     [CHR 0xE2, CHR 0x80, CHR 0x84], [CHR 0xE2, CHR 0x80, CHR 0x85],
     [CHR 0xE2, CHR 0x80, CHR 0x86], [CHR 0xE2, CHR 0x80, CHR 0x87],
     [CHR 0xE2, CHR 0x80, CHR 0x88], [CHR 0xE2, CHR 0x80, CHR 0x89],
     [CHR 0xE2, CHR 0x80, CHR 0x8A],
     [CHR 0xE2, CHR 0x80, CHR 0xA8], [CHR 0xE2, CHR 0x80, CHR 0xA9],
     [CHR 0xE2, CHR 0x80, CHR 0xAF],
     [CHR 0xE2, CHR 0x81, CHR 0x9F],
     [CHR 0xE3, CHR 0x80, CHR 0x80],
     [CHR 0xEF, CHR 0xBB, CHR 0xBF]]"

text \<open>Removes, from the front of \<open>s\<close>, every leading occurrence of a sequence of \<open>ws\<close>.\<close>

function strip_leading :: "string list \<Rightarrow> string \<Rightarrow> string" where
  "strip_leading ws s =
     (case find (\<lambda>w. w \<noteq> [] \<and> take (length w) s = w) ws of
        None \<Rightarrow> s
      | Some w \<Rightarrow> strip_leading ws (drop (length w) s))"
  by pat_completeness auto
termination
proof (relation "measure (\<lambda>(ws, s). length s)")
  show "wf (measure (\<lambda>(ws, s). length s))"
    by simp
next
  fix ws :: "string list" and s w :: string
  assume "find (\<lambda>w. w \<noteq> [] \<and> take (length w) s = w) ws = Some w"
  then have w: "w \<noteq> []" and t: "take (length w) s = w"
    by (auto simp: find_Some_iff)
  from t have "length w \<le> length s"
    by (metis length_take min.cobounded1)
  with w have "length (drop (length w) s) < length s"
    by (cases w) simp_all
  then show "((ws, drop (length w) s), (ws, s)) \<in> measure (\<lambda>(ws, s). length s)"
    by simp
qed

definition trim :: "string \<Rightarrow> string" where
  "trim s = rev (strip_leading (map rev white_space) (rev (strip_leading white_space s)))"

definition handleSubmit :: "console \<Rightarrow> console" where
  "handleSubmit c =
     (let trimmed = trim (draft c)
      in if trimmed = [] \<or> isStreaming c then c
         else c\<lparr>sendMessage_calls := sendMessage_calls c @ [trimmed], draft := []\<rparr>)"

definition handleQuickPrompt :: "string \<Rightarrow> console \<Rightarrow> console" where
  "handleQuickPrompt prompt c = c\<lparr>sendMessage_calls := sendMessage_calls c @ [prompt]\<rparr>"

definition quickPrompts :: "(string \<times> string) list" where
  "quickPrompts =
    [(''Europa dive briefing'',
      ''Give me the weather, hazard scan, navigation windows, and gear for a guided ocean dive on Europa this weekend.''),
     (''Rings Bazaar fly-in'',
      ''I want to visit the Rings Bazaar around Saturn. Scan weather, hazards, and best arrival windows, then outfit me.''),
     (''Neptune night cruise'',
      ''Plan a relaxed night cruise near Neptune's halo. Include celestial events worth catching and what to wear.'')]"

section \<open>Tool Registry\<close>

datatype error =
  UnknownToolError string
  | InvalidArgumentsError "string list"
  | ToolExecutionError string

text \<open>
  Modelled from the spec: the Tool Registry's \<open>resolve\<close>, \<open>validateInput\<close> and
  \<open>invoke\<close> (section 4.1). The route only declares the tools; looking a tool up,
  applying its schema and calling its \<open>execute\<close> is done by the \<open>ai\<close> package, which
  is not part of the sources. \<open>validateInput\<close> applies the schema the route declares
  for the tool and fails with \<open>InvalidArgumentsError\<close> listing the violated
  constraints; a name outside the registry fails with \<open>UnknownToolError\<close>.
\<close>

definition validateInput :: "string \<Rightarrow> json \<Rightarrow> error + toolInput" where
  "validateInput n raw =
     (if n \<in> {''weather'', ''hazardScan'', ''navigationWindows'', ''celestialEvents''} then
        (case location_schema raw of
           Inl cs \<Rightarrow> Inl (InvalidArgumentsError cs) | Inr v \<Rightarrow> Inr (LocationIn v))
      else if n = ''whatToWear'' then
        (case whatToWear_schema raw of
           Inl cs \<Rightarrow> Inl (InvalidArgumentsError cs) | Inr v \<Rightarrow> Inr (WearIn v))
      else Inl (UnknownToolError n))"

text \<open>
  Modelled from the spec: the dispatch from a tool name to the \<open>execute\<close> function the
  route declares under that name (section 4.1, done by the \<open>ai\<close> package). An input
  of the wrong shape for the tool is an internal failure.
\<close>

definition execute :: "string \<Rightarrow> toolInput \<Rightarrow> rng \<Rightarrow> (error + toolOutput) \<times> rng" where
  "execute n v g =
     (case v of
        LocationIn inp \<Rightarrow>
          (if n = ''weather'' then
             (case weather_execute inp g of (r, g') \<Rightarrow> (Inr (WeatherOut r), g'))
           else if n = ''hazardScan'' then
             (case hazardScan_execute inp g of (r, g') \<Rightarrow> (Inr (HazardOut r), g'))
           else if n = ''navigationWindows'' then
             (case navigationWindows_execute inp g of (r, g') \<Rightarrow> (Inr (NavigationOut r), g'))
           else if n = ''celestialEvents'' then
             (case celestialEvents_execute inp g of (r, g') \<Rightarrow> (Inr (CelestialOut r), g'))
           else (Inl (ToolExecutionError ''input does not fit the tool''), g))
      | WearIn inp \<Rightarrow>
          (if n = ''whatToWear'' then (Inr (WearOut (whatToWear_execute inp)), g)
           else (Inl (ToolExecutionError ''input does not fit the tool''), g)))"

text \<open>
  Modelled from the spec: \<open>invoke(name, rawArgs)\<close> validates, then calls \<open>execute\<close>
  (section 4.1).
\<close>

definition invoke :: "string \<Rightarrow> json \<Rightarrow> rng \<Rightarrow> (error + toolOutput) \<times> rng" where
  "invoke n raw g =
     (case validateInput n raw of
        Inl e \<Rightarrow> (Inl e, g)
      | Inr v \<Rightarrow> execute n v g)"

text \<open>
  Modelled from the spec: the human-readable message of a tool-level error, which
  becomes the \<open>errorText\<close> of the tool part (sections 4.1 and 7). An
  \<open>InvalidArgumentsError\<close> lists the violated constraints.
\<close>

fun error_message :: "error \<Rightarrow> string" where
  "error_message (UnknownToolError n) = ''Unknown tool: '' @ n"
| "error_message (InvalidArgumentsError cs) = ''Invalid arguments: '' @ concat (map (\<lambda>c. c @ ''; '') cs)"
| "error_message (ToolExecutionError m) = ''Tool execution failed: '' @ m"

section \<open>Streaming Transcript Builder\<close>

text \<open>
  Modelled from the spec: the legal state progression of a tool part (section 3):
  \<open>input-streaming\<close>, then \<open>input-available\<close>, then one of \<open>output-available\<close> and
  \<open>output-error\<close>; nothing else. The progression is driven by the \<open>ai\<close> package; the
  page in the sources only reads the state.
\<close>

fun legal_transition :: "toolState \<Rightarrow> toolState \<Rightarrow> bool" where
  "legal_transition InputStreaming InputAvailable = True"
| "legal_transition InputAvailable OutputAvailable = True"
| "legal_transition InputAvailable OutputError = True"
| "legal_transition _ _ = False"

datatype payload = InputPayload json | OutputPayload toolOutput | ErrorPayload string

text \<open>
  Modelled from the spec: the payload that comes with a new state (sections 3 and
  4.2): the complete arguments with \<open>input-available\<close>, the output with
  \<open>output-available\<close>, the error text with \<open>output-error\<close>. Any other combination
  is no transition.
\<close>

fun with_payload :: "ToolPart \<Rightarrow> toolState \<Rightarrow> payload \<Rightarrow> ToolPart option" where
  "with_payload tp InputAvailable (InputPayload a) =
     Some (tp\<lparr>state := InputAvailable, tool_input := a\<rparr>)"
| "with_payload tp OutputAvailable (OutputPayload out) =
     Some (tp\<lparr>state := OutputAvailable, tool_output := Some out\<rparr>)"
| "with_payload tp OutputError (ErrorPayload t) =
     Some (tp\<lparr>state := OutputError, errorText := Some t\<rparr>)"
| "with_payload tp _ _ = None"

text \<open>
  Modelled from the spec: the builder's two mutation operations (section 4.3, part of
  the \<open>ai\<close> package). The builder owns the ordered parts of the assistant message in
  progress. \<open>append\<close> adds a part at the end; a tool part enters in
  \<open>input-streaming\<close>. \<open>transition\<close> advances the tool part at an index along a legal
  transition. An operation that would break the invariants of section 3 leaves the
  message as it is.
\<close>

definition append_part :: "part \<Rightarrow> part list \<Rightarrow> part list" where
  "append_part p ps =
     (case p of
        Text t \<Rightarrow> ps @ [p]
      | Tool tp \<Rightarrow> if state tp = InputStreaming then ps @ [p] else ps)"

definition transition :: "nat \<Rightarrow> toolState \<Rightarrow> payload \<Rightarrow> part list \<Rightarrow> part list" where
  "transition i s pl ps =
     (if i < length ps then
        (case ps ! i of
           Text t \<Rightarrow> ps
         | Tool tp \<Rightarrow>
             (if legal_transition (state tp) s then
                (case with_payload tp s pl of
                   Some tp' \<Rightarrow> ps[i := Tool tp']
                 | None \<Rightarrow> ps)
              else ps))
      else ps)"

text \<open>
  Modelled from the spec: the transcript-update events of section 6 and their replay.
  \<open>snapshots\<close> lists what \<open>currentMessage()\<close> returns after each event;
  \<open>observed_states\<close> is the sequence of states a consumer sees the part at an index
  pass through.
\<close>

datatype event = Append part | Transition nat toolState payload

fun apply_event :: "event \<Rightarrow> part list \<Rightarrow> part list" where
  "apply_event (Append p) ps = append_part p ps"
| "apply_event (Transition i s pl) ps = transition i s pl ps"

fun snapshots :: "event list \<Rightarrow> part list \<Rightarrow> part list list" where
  "snapshots [] ps = []"
| "snapshots (e # es) ps = apply_event e ps # snapshots es (apply_event e ps)"

definition state_at :: "nat \<Rightarrow> part list \<Rightarrow> toolState list" where
  "state_at i ps =
     (if i < length ps then (case ps ! i of Text t \<Rightarrow> [] | Tool tp \<Rightarrow> [state tp]) else [])"

definition observed_states :: "nat \<Rightarrow> part list list \<Rightarrow> toolState list" where
  "observed_states i snaps = remdups_adj (concat (map (state_at i) snaps))"

text \<open>
  Auxiliary notions for reasoning about observed states. \<open>trace\<close> is the sequence of
  states before repeated readings are merged; \<open>follows s xs\<close> holds when \<open>xs\<close>, read
  after the state \<open>s\<close>, only repeats a state or moves along a legal transition;
  \<open>rest_of fin s\<close> is the part of the progression ending in \<open>fin\<close> that starts at \<open>s\<close>.
\<close>

definition trace :: "nat \<Rightarrow> event list \<Rightarrow> part list \<Rightarrow> toolState list" where
  "trace i es ps = concat (map (state_at i) (snapshots es ps))"

fun follows :: "toolState \<Rightarrow> toolState list \<Rightarrow> bool" where
  "follows s [] = True"
| "follows s (x # xs) = ((x = s \<or> legal_transition s x) \<and> follows x xs)"

fun rest_of :: "toolState \<Rightarrow> toolState \<Rightarrow> toolState list" where
  "rest_of fin InputStreaming = [InputStreaming, InputAvailable, fin]"
| "rest_of fin InputAvailable = [InputAvailable, fin]"
| "rest_of fin OutputAvailable = [OutputAvailable]"
| "rest_of fin OutputError = [OutputError]"

section \<open>Turn Orchestrator\<close>

text \<open>
  Modelled from the spec: the planner of section 9, \<open>nextStep(transcript)\<close>, here the
  language model behind \<open>streamText\<close>. It sees the prior messages and the parts of
  the assistant message in progress.
\<close>

datatype plannerStep = EmitText string | CallTool string json | Stop

type_synonym planner = "message list \<Rightarrow> part list \<Rightarrow> plannerStep"

datatype phase = Idle | Reasoning | Done

text \<open>
  A response: its phase, the steps taken so far, the parts produced so far and, for a
  response that was aborted, the response-level failure.
\<close>

record response =
  phase :: phase
  steps :: "plannerStep list"
  produced :: "part list"
  failure :: "error option"

text \<open>
  Modelled from the spec: \<open>stepCountIs(n)\<close> of the \<open>ai\<close> package, the stop condition
  the route passes as \<open>stopWhen\<close>: it holds when the number of steps taken is \<open>n\<close>.
\<close>

definition stepCountIs :: "nat \<Rightarrow> plannerStep list \<Rightarrow> bool" where
  "stepCountIs n taken = (length taken = n)"

text \<open>
  Modelled from the spec: one tool-call step (section 4.2). A name outside the
  registry is a response-level failure. Otherwise a tool part is appended in
  \<open>input-streaming\<close>, moves to \<open>input-available\<close> with the arguments, the tool is
  invoked, and the part moves to \<open>output-available\<close> with the output or to
  \<open>output-error\<close> with the error text; a tool-level error is not a failure of the
  response.
\<close>

definition tool_call_step ::
  "string \<Rightarrow> json \<Rightarrow> part list \<Rightarrow> rng \<Rightarrow> (error + part list) \<times> rng" where
  "tool_call_step n args ps g =
     (if n \<notin> set toolNames then (Inl (UnknownToolError n), g)
      else
        (let i = length ps;
             ps1 = append_part (Tool \<lparr>toolName = n, state = InputStreaming, tool_input = JNull,
                                     tool_output = None, errorText = None\<rparr>) ps;
             ps2 = transition i InputAvailable (InputPayload args) ps1
         in case invoke n args g of
              (Inr out, g') \<Rightarrow> (Inr (transition i OutputAvailable (OutputPayload out) ps2), g')
            | (Inl e, g') \<Rightarrow>
                (Inr (transition i OutputError (ErrorPayload (error_message e)) ps2), g')))"

text \<open>
  Modelled from the spec: the reasoning loop of section 4.2, run by \<open>streamText\<close> of
  the \<open>ai\<close> package. Each iteration asks the planner for one step: stop, emit text, or
  call one tool. \<open>Stop\<close> ends the response at once. After any other step the stop
  condition is consulted: when it holds the response is \<open>Done\<close> with the parts produced
  so far, otherwise the loop goes on. A response-level failure ends the loop without
  reaching \<open>Done\<close>. The loop is a partial function: \<open>None\<close> is a response that never
  ends.
\<close>

partial_function (option) reasoning_loop ::
  "(plannerStep list \<Rightarrow> bool) \<Rightarrow> planner \<Rightarrow> message list \<Rightarrow> response \<Rightarrow> rng
     \<Rightarrow> (response \<times> rng) option" where
  "reasoning_loop stopWhen p ms r g =
     (case p ms (produced r) of
        Stop \<Rightarrow> Some (r\<lparr>phase := Done, steps := steps r @ [Stop]\<rparr>, g)
      | EmitText t \<Rightarrow>
          (if stopWhen (steps r @ [EmitText t])
           then Some (r\<lparr>phase := Done, steps := steps r @ [EmitText t],
                        produced := append_part (Text t) (produced r)\<rparr>, g)
           else reasoning_loop stopWhen p ms
                  (r\<lparr>steps := steps r @ [EmitText t],
                     produced := append_part (Text t) (produced r)\<rparr>) g)
      | CallTool n args \<Rightarrow>
          (case tool_call_step n args (produced r) g of
             (Inl e, g') \<Rightarrow> Some (r\<lparr>steps := steps r @ [CallTool n args], failure := Some e\<rparr>, g')
           | (Inr ps, g') \<Rightarrow>
               (if stopWhen (steps r @ [CallTool n args])
                then Some (r\<lparr>phase := Done, steps := steps r @ [CallTool n args],
                             produced := ps\<rparr>, g')
                else reasoning_loop stopWhen p ms
                       (r\<lparr>steps := steps r @ [CallTool n args], produced := ps\<rparr>) g')))"

declare reasoning_loop.simps [code]

text \<open>
  Modelled from the spec: a planner that only names tools of the registry. A name
  outside the registry is the configuration error \<open>UnknownToolError\<close> of section 7.
\<close>

definition registered_only :: "planner \<Rightarrow> bool" where
  "registered_only p = (\<forall>ms ps n args. p ms ps = CallTool n args \<longrightarrow> n \<in> set toolNames)"

text \<open>
  Modelled from the spec: \<open>streamText\<close>, which starts the loop for a new user message:
  the response leaves \<open>Idle\<close> and enters \<open>Reasoning\<close> with no step taken and no part
  produced.
\<close>

record streamTextOptions =
  opt_messages :: "message list"
  opt_stopWhen :: "plannerStep list \<Rightarrow> bool"

definition streamText :: "planner \<Rightarrow> streamTextOptions \<Rightarrow> rng \<Rightarrow> (response \<times> rng) option" where
  "streamText p opts g =
     reasoning_loop (opt_stopWhen opts) p (opt_messages opts)
       \<lparr>phase = Reasoning, steps = [], produced = [], failure = None\<rparr> g"

text \<open>
  The scenario of section 8 as a stub planner: on an empty message it calls
  \<open>whatToWear\<close> with four suggestions, afterwards it stops.
\<close>

definition four_suggestions :: "(string \<times> json) list" where
  "four_suggestions =
     [(''suggestions'',
       JArray [JObject [(''title'', JString ''Visor''), (''description'', JString ''Polarized'')],
               JObject [(''title'', JString ''Boots''), (''description'', JString ''Magnetic'')],
               JObject [(''title'', JString ''Cloak''), (''description'', JString ''Reflective'')],
               JObject [(''title'', JString ''Gloves''), (''description'', JString ''Insulated'')]])]"

definition wear_then_stop :: planner where
  "wear_then_stop ms ps =
     (if ps = [] then CallTool ''whatToWear'' (JObject four_suggestions) else Stop)"

section \<open>The chat route\<close>

text \<open>\<open>export const maxDuration = 30\<close>, in seconds.\<close>

definition maxDuration :: nat where
  "maxDuration = 30"

text \<open>
  The body of a request as the route parses it: \<open>const { messages } = await req.json()\<close>
  takes the field \<open>messages\<close>; \<open>other_fields\<close> are the remaining fields of the body.
\<close>

record request =
  messages :: "message list"
  other_fields :: "(string \<times> json) list"

text \<open>
  The options \<open>POST\<close> passes to \<open>streamText\<close>: the messages of the request and
  \<open>stopWhen: stepCountIs(7)\<close>; the tools are those of the registry above. The model
  (\<open>google("gemini-2.0-flash")\<close> with the system prompt) is the planner.
\<close>

definition POST_options :: "request \<Rightarrow> streamTextOptions" where
  "POST_options req = \<lparr>opt_messages = messages req, opt_stopWhen = stepCountIs 7\<rparr>"

definition POST :: "planner \<Rightarrow> request \<Rightarrow> rng \<Rightarrow> (response \<times> rng) option" where
  "POST p req g = streamText p (POST_options req) g"

section \<open>Properties of the sampling helpers\<close>

lemma valid_rng_tail:
  "valid_rng g \<Longrightarrow> valid_rng (snd (Math_random g))"
  by (simp add: valid_rng_def Math_random_def)

lemma valid_rng_draw:
  "valid_rng g \<Longrightarrow> 0 \<le> fst (Math_random g) \<and> fst (Math_random g) < 1"
  by (simp add: valid_rng_def Math_random_def)

lemma floor_scaled_draw:
  fixes r :: real
  assumes "0 \<le> r" and "r < 1" and "0 < n"
  shows "nat \<lfloor>r * real n\<rfloor> < n"
proof -
  have "r * real n < real n"
    using assms by simp
  then have "\<lfloor>r * real n\<rfloor> < int n"
    by (simp add: floor_less_iff)
  moreover have "0 \<le> \<lfloor>r * real n\<rfloor>"
    using assms by simp
  ultimately show ?thesis
    by linarith
qed

lemma random_index_bound:
  assumes "valid_rng g" and "0 < n"
  shows "fst (random_index n g) < n"
  using valid_rng_draw [OF assms(1)] assms(2)
  by (simp add: random_index_def split_beta floor_scaled_draw)

lemma random_index_rng:
  "valid_rng g \<Longrightarrow> valid_rng (snd (random_index n g))"
  by (simp add: random_index_def split_beta valid_rng_tail)

lemma randomOf_member:
  assumes "valid_rng g" and "items \<noteq> []"
  shows "fst (randomOf items g) \<in> set items"
  using random_index_bound [OF assms(1), of "length items"] assms(2)
  by (simp add: randomOf_def split_beta)

lemma randomOf_rng:
  "valid_rng g \<Longrightarrow> valid_rng (snd (randomOf items g))"
  by (simp add: randomOf_def split_beta random_index_rng)

lemma shuffle_loop_length:
  "length (fst (shuffle_loop k pool g)) = length pool"
  by (induction k arbitrary: pool g) (simp_all add: split_beta)

lemma shuffle_loop_mset:
  "valid_rng g \<Longrightarrow> k < length pool \<Longrightarrow> mset (fst (shuffle_loop k pool g)) = mset pool"
proof (induction k arbitrary: pool g)
  case 0
  then show ?case by simp
next
  case (Suc k)
  let ?j = "fst (random_index (Suc k + 1) g)"
  let ?g = "snd (random_index (Suc k + 1) g)"
  let ?pool = "pool[Suc k := pool ! ?j, ?j := pool ! Suc k]"
  have j: "?j < length pool"
    using random_index_bound [OF Suc.prems(1), of "Suc k + 1"] Suc.prems(2) by simp
  have "mset (fst (shuffle_loop k ?pool ?g)) = mset ?pool"
    using Suc.prems by (intro Suc.IH) (simp_all add: random_index_rng)
  also have "mset ?pool = mset pool"
    using j Suc.prems(2) by (rule mset_swap)
  finally show ?case
    by (simp add: split_beta)
qed

lemma shuffle_loop_rng:
  "valid_rng g \<Longrightarrow> valid_rng (snd (shuffle_loop k pool g))"
  by (induction k arbitrary: pool g) (simp_all add: split_beta random_index_rng)

lemma takeRandom_length:
  "length (fst (takeRandom items cnt g)) = min cnt (length items)"
  by (simp add: takeRandom_def split_beta shuffle_loop_length)

lemma takeRandom_subset:
  assumes "valid_rng g"
  shows "set (fst (takeRandom items cnt g)) \<subseteq> set items"
proof (cases "items = []")
  case True
  then show ?thesis by (simp add: takeRandom_def)
next
  case False
  then have "mset (fst (shuffle_loop (length items - 1) items g)) = mset items"
    using assms by (intro shuffle_loop_mset) simp_all
  then have "set (fst (shuffle_loop (length items - 1) items g)) = set items"
    by (rule mset_eq_setD)
  then show ?thesis
    using set_take_subset by (fastforce simp: takeRandom_def split_beta)
qed

lemma takeRandom_rng:
  "valid_rng g \<Longrightarrow> valid_rng (snd (takeRandom items cnt g))"
  by (simp add: takeRandom_def split_beta shuffle_loop_rng)

lemma map_random_length:
  "length (fst (map_random f xs g)) = length xs"
  by (induction xs arbitrary: g) (simp_all add: split_beta)

section \<open>The tools\<close>

lemma pools_nonempty:
  "\<forall>s \<in> set conditionPool. s \<noteq> []" "\<forall>s \<in> set windPool. s \<noteq> []"
  "\<forall>s \<in> set radiationPool. s \<noteq> []" "\<forall>s \<in> set advisoryPool. s \<noteq> []"
  by (simp_all add: conditionPool_def windPool_def radiationPool_def advisoryPool_def)

text \<open>
  Claim C3. For every validated location and every sequence of draws, the weather tool
  returns the input location, a temperature between 42 and 261 inclusive, and
  non-empty conditions, wind, radiation and advisory strings.
\<close>

theorem weather_execute_result:
  assumes "valid_rng g"
  shows "w_location (fst (weather_execute \<lparr>location = loc\<rparr> g)) = loc
       \<and> 42 \<le> temperature (fst (weather_execute \<lparr>location = loc\<rparr> g))
       \<and> temperature (fst (weather_execute \<lparr>location = loc\<rparr> g)) \<le> 261
       \<and> conditions (fst (weather_execute \<lparr>location = loc\<rparr> g)) \<noteq> []
       \<and> wind (fst (weather_execute \<lparr>location = loc\<rparr> g)) \<noteq> []
       \<and> radiation (fst (weather_execute \<lparr>location = loc\<rparr> g)) \<noteq> []
       \<and> advisory (fst (weather_execute \<lparr>location = loc\<rparr> g)) \<noteq> []"
proof -
  let ?g1 = "snd (random_index 220 g)"
  let ?g2 = "snd (randomOf conditionPool ?g1)"
  let ?g3 = "snd (randomOf windPool ?g2)"
  let ?g4 = "snd (randomOf radiationPool ?g3)"
  have v1: "valid_rng ?g1" using assms by (rule random_index_rng)
  have v2: "valid_rng ?g2" using v1 by (rule randomOf_rng)
  have v3: "valid_rng ?g3" using v2 by (rule randomOf_rng)
  have v4: "valid_rng ?g4" using v3 by (rule randomOf_rng)
  have t: "fst (random_index 220 g) < 220"
    using assms by (rule random_index_bound) simp
  have c: "fst (randomOf conditionPool ?g1) \<in> set conditionPool"
    using v1 by (rule randomOf_member) (simp add: conditionPool_def)
  have w: "fst (randomOf windPool ?g2) \<in> set windPool"
    using v2 by (rule randomOf_member) (simp add: windPool_def)
  have r: "fst (randomOf radiationPool ?g3) \<in> set radiationPool"
    using v3 by (rule randomOf_member) (simp add: radiationPool_def)
  have a: "fst (randomOf advisoryPool ?g4) \<in> set advisoryPool"
    using v4 by (rule randomOf_member) (simp add: advisoryPool_def)
  show ?thesis
    using t c w r a pools_nonempty
    by (simp add: weather_execute_def split_beta)
qed


text \<open>The draws that are all one half give the weather of Titan within the bounds.\<close>

theorem weather_execute_result_witness:
  "valid_rng (\<lambda>n. 1 / 2)
   \<and> w_location (fst (weather_execute \<lparr>location = ''Titan''\<rparr> (\<lambda>n. 1 / 2))) = ''Titan''
   \<and> 42 \<le> temperature (fst (weather_execute \<lparr>location = ''Titan''\<rparr> (\<lambda>n. 1 / 2)))
   \<and> temperature (fst (weather_execute \<lparr>location = ''Titan''\<rparr> (\<lambda>n. 1 / 2))) \<le> 261
   \<and> conditions (fst (weather_execute \<lparr>location = ''Titan''\<rparr> (\<lambda>n. 1 / 2))) \<noteq> []
   \<and> wind (fst (weather_execute \<lparr>location = ''Titan''\<rparr> (\<lambda>n. 1 / 2))) \<noteq> []
   \<and> radiation (fst (weather_execute \<lparr>location = ''Titan''\<rparr> (\<lambda>n. 1 / 2))) \<noteq> []
   \<and> advisory (fst (weather_execute \<lparr>location = ''Titan''\<rparr> (\<lambda>n. 1 / 2))) \<noteq> []"
proof -
  have h: "valid_rng (\<lambda>n. 1 / 2)"
    by (simp add: valid_rng_def)
  show ?thesis
    using h weather_execute_result [OF h, of "''Titan''"] by simp
qed

lemma suggestion_schema_issue:
  "suggestion_schema x \<noteq> Inl []"
  by (simp add: suggestion_schema_def split: json.splits option.splits)

lemma values_of_length:
  "\<forall>r \<in> set rs. r \<noteq> Inl [] \<Longrightarrow> issues_of rs = [] \<Longrightarrow> length (values_of rs) = length rs"
proof (induction rs)
  case Nil
  then show ?case by (simp add: values_of_def)
next
  case (Cons r rs)
  then show ?case
    by (cases r) (simp_all add: issues_of_def values_of_def)
qed

lemma whatToWear_schema_accepts:
  assumes "whatToWear_schema raw = Inr inp"
  shows "1 \<le> length (suggestions inp) \<and> length (suggestions inp) \<le> 3"
proof -
  from assms obtain fs xs where raw: "raw = JObject fs"
    and xs: "map_of fs ''suggestions'' = Some (JArray xs)"
    by (auto simp: whatToWear_schema_def split: json.splits option.splits)
  let ?rs = "map suggestion_schema xs"
  from assms raw xs have ok: "issues_of ?rs = []" "\<not> length xs < 1" "\<not> 3 < length xs"
    and inp: "inp = \<lparr>suggestions = values_of ?rs\<rparr>"
    by (auto simp: whatToWear_schema_def Let_def split: if_splits)
  have "\<forall>r \<in> set ?rs. r \<noteq> Inl []"
    by (auto simp: suggestion_schema_issue)
  then have "length (values_of ?rs) = length xs"
    using values_of_length [OF _ ok(1)] by simp
  with ok inp show ?thesis by (cases xs) simp_all
qed

text \<open>
  Claim C4. For every accepted input, \<open>hazardScan\<close>, \<open>navigationWindows\<close> and
  \<open>celestialEvents\<close> return at most 3 entries, and \<open>whatToWear\<close> returns between 1
  and 3 suggestions.
\<close>

theorem tool_outputs_bounded:
  assumes "valid_rng g" and "whatToWear_schema raw = Inr wear"
  shows "length (hazards (fst (hazardScan_execute inp g))) \<le> 3
       \<and> length (windows (fst (navigationWindows_execute inp g))) \<le> 3
       \<and> length (events (fst (celestialEvents_execute inp g))) \<le> 3
       \<and> 1 \<le> length (suggestions (whatToWear_execute wear))
       \<and> length (suggestions (whatToWear_execute wear)) \<le> 3"
proof -
  have "length (hazards (fst (hazardScan_execute inp g))) \<le> 3"
    by (simp add: hazardScan_execute_def split_beta takeRandom_length)
  moreover have "length (windows (fst (navigationWindows_execute inp g))) \<le> 3"
    by (simp add: navigationWindows_execute_def split_beta takeRandom_length)
  moreover have "length (events (fst (celestialEvents_execute inp g))) \<le> 3"
    by (simp add: celestialEvents_execute_def split_beta map_random_length takeRandom_length)
  moreover have "1 \<le> length (suggestions (whatToWear_execute wear))
      \<and> length (suggestions (whatToWear_execute wear)) \<le> 3"
    using whatToWear_schema_accepts [OF assms(2)] by (simp add: whatToWear_execute_def)
  ultimately show ?thesis by simp
qed

lemma navigationWindows_windows:
  "windows (fst (navigationWindows_execute inp g)) =
     map (\<lambda>w. w\<lparr>wnote := wnote w @ '' ('' @ location inp @ '').''\<rparr>)
         (fst (takeRandom windowPool 3 g))"
  unfolding navigationWindows_execute_def
  by (cases "takeRandom windowPool 3 g") simp

lemma annotated_window:
  assumes "w = p\<lparr>wnote := wnote p @ '' ('' @ loc @ '').''\<rparr>"
  shows "wnote w = wnote p @ '' ('' @ loc @ '').'' \<and> label w = label p \<and> window w = window p"
  unfolding assms by simp

lemma navigationWindows_member:
  assumes "w \<in> set (windows (fst (navigationWindows_execute \<lparr>location = loc\<rparr> g)))"
  shows "\<exists>p \<in> set (fst (takeRandom windowPool 3 g)).
           w = p\<lparr>wnote := wnote p @ '' ('' @ loc @ '').''\<rparr>"
  using assms unfolding navigationWindows_windows set_map by (auto elim: imageE)

theorem tool_outputs_bounded_witness:
  "valid_rng (\<lambda>n. 1 / 2)
   \<and> whatToWear_schema
        (JObject [(''suggestions'',
           JArray [JObject [(''title'', JString ''Visor''),
                            (''description'', JString ''Polarized lenses'')]])])
       = Inr \<lparr>suggestions = [\<lparr>w_title = ''Visor'', description = ''Polarized lenses''\<rparr>]\<rparr>
   \<and> length (hazards (fst (hazardScan_execute \<lparr>location = ''Europa''\<rparr> (\<lambda>n. 1 / 2)))) \<le> 3
   \<and> length (windows (fst (navigationWindows_execute \<lparr>location = ''Europa''\<rparr> (\<lambda>n. 1 / 2)))) \<le> 3
   \<and> length (events (fst (celestialEvents_execute \<lparr>location = ''Europa''\<rparr> (\<lambda>n. 1 / 2)))) \<le> 3
   \<and> 1 \<le> length (suggestions (whatToWear_execute
          \<lparr>suggestions = [\<lparr>w_title = ''Visor'', description = ''Polarized lenses''\<rparr>]\<rparr>))
   \<and> length (suggestions (whatToWear_execute
          \<lparr>suggestions = [\<lparr>w_title = ''Visor'', description = ''Polarized lenses''\<rparr>]\<rparr>)) \<le> 3"
proof -
  have h1: "valid_rng (\<lambda>n. 1 / 2)"
    by (simp add: valid_rng_def)
  have h2: "whatToWear_schema
        (JObject [(''suggestions'',
           JArray [JObject [(''title'', JString ''Visor''),
                            (''description'', JString ''Polarized lenses'')]])])
       = Inr \<lparr>suggestions = [\<lparr>w_title = ''Visor'', description = ''Polarized lenses''\<rparr>]\<rparr>"
    by code_simp
  from h1 h2 tool_outputs_bounded [OF h1 h2, of "\<lparr>location = ''Europa''\<rparr>"]
  show ?thesis by blast
qed

text \<open>
  Claim C9. Every window \<open>navigationWindows\<close> returns is a window of the pool whose
  note has the input location appended in parentheses, followed by a period.
\<close>

theorem navigationWindows_notes:
  assumes "valid_rng g"
  shows "\<forall>w \<in> set (windows (fst (navigationWindows_execute \<lparr>location = loc\<rparr> g))).
           \<exists>p \<in> set windowPool.
             wnote w = wnote p @ '' ('' @ loc @ '').''
             \<and> label w = label p \<and> window w = window p"
proof
  fix w
  assume "w \<in> set (windows (fst (navigationWindows_execute \<lparr>location = loc\<rparr> g)))"
  then have "\<exists>p \<in> set (fst (takeRandom windowPool 3 g)).
      w = p\<lparr>wnote := wnote p @ '' ('' @ loc @ '').''\<rparr>"
    by (rule navigationWindows_member)
  then obtain p where p: "p \<in> set (fst (takeRandom windowPool 3 g))"
    and w: "w = p\<lparr>wnote := wnote p @ '' ('' @ loc @ '').''\<rparr>"
    by (rule bexE)
  from p takeRandom_subset [OF assms] have "p \<in> set windowPool"
    by (rule subsetD [rotated])
  then show "\<exists>p \<in> set windowPool.
      wnote w = wnote p @ '' ('' @ loc @ '').'' \<and> label w = label p \<and> window w = window p"
    using annotated_window [OF w] by (rule rev_bexI)
qed

theorem navigationWindows_notes_witness:
  "valid_rng (\<lambda>n. 1 / 2)
   \<and> \<lparr>label = ''Nightglow Passage'', window = ''16:45 - 17:25 GST'',
        wnote = ''Nebula particulates thin out, boosting sensor clarity. (Titan).''\<rparr>
       \<in> set (windows (fst (navigationWindows_execute \<lparr>location = ''Titan''\<rparr> (\<lambda>n. 1 / 2))))
   \<and> (\<exists>p \<in> set windowPool.
         wnote \<lparr>label = ''Nightglow Passage'', window = ''16:45 - 17:25 GST'',
                wnote = ''Nebula particulates thin out, boosting sensor clarity. (Titan).''\<rparr>
           = wnote p @ '' ('' @ ''Titan'' @ '').''
         \<and> label \<lparr>label = ''Nightglow Passage'', window = ''16:45 - 17:25 GST'',
                wnote = ''Nebula particulates thin out, boosting sensor clarity. (Titan).''\<rparr>
           = label p
         \<and> window \<lparr>label = ''Nightglow Passage'', window = ''16:45 - 17:25 GST'',
                wnote = ''Nebula particulates thin out, boosting sensor clarity. (Titan).''\<rparr>
           = window p)"
proof -
  have h: "valid_rng (\<lambda>n. 1 / 2)"
    by (simp add: valid_rng_def)
  have m: "\<lparr>label = ''Nightglow Passage'', window = ''16:45 - 17:25 GST'',
        wnote = ''Nebula particulates thin out, boosting sensor clarity. (Titan).''\<rparr>
       \<in> set (windows (fst (navigationWindows_execute \<lparr>location = ''Titan''\<rparr> (\<lambda>n. 1 / 2))))"
    by code_simp
  from h m bspec [OF navigationWindows_notes [OF h, of "''Titan''"] m]
  show ?thesis by blast
qed

text \<open>
  Claim C10. For the same sequence of draws, \<open>celestialEvents\<close> returns the same
  result, and leaves the same draws, whatever the location it is given.
\<close>

theorem celestialEvents_ignores_location:
  "celestialEvents_execute inp1 g = celestialEvents_execute inp2 g"
  unfolding celestialEvents_execute_def by (rule refl)

section \<open>The page\<close>

lemma stateName_output_available:
  "stateName s = ''output-available'' \<longleftrightarrow> s = OutputAvailable"
  by (cases s) simp_all

lemma foldl_count:
  "foldl (\<lambda>cnt m. cnt + f m) (a::nat) ms = a + sum_list (map f ms)"
  by (induction ms arbitrary: a) simp_all

lemma length_filter_concat:
  "length (filter P (concat xss)) = sum_list (map (\<lambda>xs. length (filter P xs)) xss)"
  by (induction xss) simp_all

lemma toolActivations_filter:
  "toolActivations ms =
     length (filter (\<lambda>p. tool_typed p \<and> part_state p = Some ''output-available'')
                    (concat (map parts_or_empty ms)))"
  by (simp add: toolActivations_def tool_typed_def foldl_count length_filter_concat comp_def)

lemma length_filter_conj:
  "length (filter (\<lambda>x. P x \<and> Q x) xs) \<le> length (filter Q xs)"
  by (induction xs) auto

lemma view_part_tool_typed:
  "part_state (view_part p) = Some st \<Longrightarrow> tool_typed (view_part p)"
  by (cases p) (simp_all add: view_part_def tool_typed_def startsWith_def)

lemma view_message_parts:
  "concat (map parts_or_empty (map view_message ms)) = map view_part (concat (map parts ms))"
  by (induction ms) (simp_all add: parts_or_empty_def view_message_def)

lemma view_part_counted:
  "(tool_typed (view_part p) \<and> part_state (view_part p) = Some ''output-available'')
     \<longleftrightarrow> part_state (view_part p) = Some ''output-available''"
  using view_part_tool_typed by blast

lemma view_part_output_available:
  "part_state (view_part p) = Some ''output-available''
     \<longleftrightarrow> (case p of Text t \<Rightarrow> False | Tool tp \<Rightarrow> state tp = OutputAvailable)"
  by (cases p) (simp_all add: view_part_def stateName_output_available)

text \<open>
  Claim C7, as amended. For every transcript the "tool runs" counter of the page equals
  the number of parts, over all messages, whose type starts with \<open>tool-\<close> and whose state
  is \<open>output-available\<close>; only parts in that state are counted, so the counter never
  exceeds their number; and on a transcript of the data model, made of text parts and
  tool parts, it is the number of parts in state \<open>output-available\<close>.
\<close>

theorem toolActivations_counts_tool_parts:
  "toolActivations ms =
     length (filter (\<lambda>p. tool_typed p \<and> part_state p = Some ''output-available'')
                    (concat (map parts_or_empty ms)))
   \<and> toolActivations ms \<le> output_available_count ms
   \<and> toolActivations (map view_message tr) = output_available_count (map view_message tr)
   \<and> toolActivations (map view_message tr) =
       length (filter (\<lambda>p. case p of Text t \<Rightarrow> False | Tool tp \<Rightarrow> state tp = OutputAvailable)
                      (concat (map parts tr)))"
proof -
  have a: "toolActivations ms \<le> output_available_count ms"
    unfolding toolActivations_filter output_available_count_def
    by (rule length_filter_conj)
  have b: "toolActivations (map view_message tr) = output_available_count (map view_message tr)"
    unfolding toolActivations_filter output_available_count_def view_message_parts
    by (simp add: filter_map comp_def view_part_counted)
  have c: "output_available_count (map view_message tr) =
       length (filter (\<lambda>p. case p of Text t \<Rightarrow> False | Tool tp \<Rightarrow> state tp = OutputAvailable)
                      (concat (map parts tr)))"
    unfolding output_available_count_def view_message_parts
    by (simp add: filter_map comp_def view_part_output_available)
  from toolActivations_filter [of ms] a b c show ?thesis
    by simp
qed

text \<open>
  Claim C7 as stated fails: a part of type \<open>dynamic-tool\<close> in state \<open>output-available\<close>
  is a part whose state is \<open>output-available\<close>, and the counter leaves it out.
\<close>

theorem toolActivations_skips_other_types:
  "toolActivations
     [\<lparr>ui_parts = Some [\<lparr>part_type = Some ''dynamic-tool'',
                          part_state = Some ''output-available''\<rparr>]\<rparr>] = 0
   \<and> output_available_count
     [\<lparr>ui_parts = Some [\<lparr>part_type = Some ''dynamic-tool'',
                          part_state = Some ''output-available''\<rparr>]\<rparr>] = 1"
  by code_simp

lemma toolActivations_sample:
  "toolActivations
     (map view_message
        [\<lparr>msg_id = ''m1'', role = User, parts = [Text ''weather on Titan'']\<rparr>,
         \<lparr>msg_id = ''m2'', role = Assistant,
          parts = [Tool \<lparr>toolName = ''weather'', state = OutputAvailable, tool_input = JNull,
                         tool_output = None, errorText = None\<rparr>,
                   Tool \<lparr>toolName = ''hazardScan'', state = OutputError, tool_input = JNull,
                         tool_output = None, errorText = Some ''offline''\<rparr>,
                   Tool \<lparr>toolName = ''whatToWear'', state = InputAvailable, tool_input = JNull,
                         tool_output = None, errorText = None\<rparr>,
                   Text ''Clear skies.'']\<rparr>]) = 1"
  by code_simp

lemma toolActivations_without_parts:
  "toolActivations [\<lparr>ui_parts = None\<rparr>,
                    \<lparr>ui_parts = Some [\<lparr>part_type = None, part_state = Some ''output-available''\<rparr>,
                                       \<lparr>part_type = Some ''tool-weather'',
                                        part_state = Some ''output-available''\<rparr>]\<rparr>] = 1"
  by code_simp

text \<open>
  Claim C6. While a response is in flight no new user message is to be sent, by the form
  or by a quick prompt. With the status \<open>streaming\<close> the form handler sends nothing,
  but the quick-prompt handler hands its prompt to \<open>sendMessage\<close>.
\<close>

theorem handleQuickPrompt_sends_while_streaming:
  "isStreaming \<lparr>draft = ''hello'', status = ''streaming'', sendMessage_calls = []\<rparr>
   \<and> sendMessage_calls
        (handleSubmit \<lparr>draft = ''hello'', status = ''streaming'', sendMessage_calls = []\<rparr>) = []
   \<and> sendMessage_calls
        (handleQuickPrompt (snd (quickPrompts ! 0))
           \<lparr>draft = ''hello'', status = ''streaming'', sendMessage_calls = []\<rparr>)
       = [''Give me the weather, hazard scan, navigation windows, and gear for a guided ocean dive on Europa this weekend.'']"
  by (simp add: isStreaming_def handleSubmit_def handleQuickPrompt_def quickPrompts_def)

lemma handleSubmit_guarded:
  "isStreaming c \<Longrightarrow> handleSubmit c = c"
  by (simp add: handleSubmit_def)

lemma handleSubmit_sends_when_ready:
  "sendMessage_calls
     (handleSubmit \<lparr>draft = ''  hello '', status = ''ready'', sendMessage_calls = []\<rparr>) = [''hello'']"
  by code_simp

lemma trim_sample:
  "trim ([CHR 0xC2, CHR 0xA0, CHR 0x09] @ ''a b'' @ [CHR 0xE2, CHR 0x80, CHR 0xA8, CHR 0x20]) = ''a b''"
  by code_simp

section \<open>The route's parameters\<close>

text \<open>
  Claim C8, as amended. The step cap and the response timeout are fixed in the route:
  \<open>POST\<close> passes \<open>stepCountIs(7)\<close> for every request, \<open>maxDuration\<close> is 30, and no
  other field of the request changes the response.
\<close>

theorem POST_fixed_parameters:
  "opt_stopWhen (POST_options req) = stepCountIs 7
   \<and> maxDuration = 30
   \<and> POST p (req\<lparr>other_fields := fs\<rparr>) g = POST p req g"
  by (simp add: POST_options_def POST_def maxDuration_def)

text \<open>
  Claim C8 as stated fails: a request that asks for a cap of 3 steps and a timeout of 5
  seconds is still served with the stop condition of 7 steps and the 30 seconds.
\<close>

theorem POST_ignores_requested_parameters:
  "opt_stopWhen
     (POST_options \<lparr>messages = [], other_fields = [(''maxSteps'', JNumber 3), (''maxDuration'', JNumber 5)]\<rparr>)
     [Stop, Stop, Stop] = False
   \<and> opt_stopWhen
     (POST_options \<lparr>messages = [], other_fields = [(''maxSteps'', JNumber 3), (''maxDuration'', JNumber 5)]\<rparr>)
     [Stop, Stop, Stop, Stop, Stop, Stop, Stop] = True
   \<and> maxDuration = 30"
  by (simp add: POST_options_def stepCountIs_def maxDuration_def)

section \<open>The state progression of a tool part\<close>

lemma legal_step_rest:
  assumes "legal_transition s x" and "fin = OutputAvailable \<or> fin = OutputError"
    and "prefix ys (rest_of fin x)"
  shows "prefix (s # ys) (rest_of OutputAvailable s) \<or> prefix (s # ys) (rest_of OutputError s)"
  using assms by (cases s; cases x) auto

lemma legal_transition_irrefl: "legal_transition s x \<Longrightarrow> x \<noteq> s"
  by (cases s; cases x) simp_all

lemma follows_progression:
  "follows s T \<Longrightarrow>
     prefix (remdups_adj (s # T)) (rest_of OutputAvailable s)
   \<or> prefix (remdups_adj (s # T)) (rest_of OutputError s)"
proof (induction T arbitrary: s)
  case Nil
  then show ?case by (cases s) simp_all
next
  case (Cons x T)
  from Cons.prems have f: "follows x T" and x: "x = s \<or> legal_transition s x"
    by simp_all
  from x show ?case
  proof
    assume "x = s"
    with Cons.IH [OF f] show ?thesis by simp
  next
    assume l: "legal_transition s x"
    then have ne: "x \<noteq> s" by (rule legal_transition_irrefl)
    from Cons.IH [OF f] have
      "prefix (s # remdups_adj (x # T)) (rest_of OutputAvailable s)
       \<or> prefix (s # remdups_adj (x # T)) (rest_of OutputError s)"
      using legal_step_rest [OF l] by blast
    with ne show ?thesis by simp
  qed
qed

lemma with_payload_state: "with_payload tp s pl = Some tp' \<Longrightarrow> state tp' = s"
  by (cases "(tp, s, pl)" rule: with_payload.cases) auto

lemma apply_event_length: "length ps \<le> length (apply_event e ps)"
  by (cases e) (auto simp: append_part_def transition_def split: part.splits option.splits)

lemma apply_event_tool:
  assumes "i < length ps" and "ps ! i = Tool tp"
  shows "\<exists>tp'. apply_event e ps ! i = Tool tp'
           \<and> (state tp' = state tp \<or> legal_transition (state tp) (state tp'))"
proof (cases e)
  case (Append p)
  with assms show ?thesis
    by (auto simp: append_part_def nth_append split: part.splits)
next
  case (Transition j s pl)
  with assms show ?thesis
    by (auto simp: transition_def nth_list_update dest: with_payload_state
        split: part.splits option.splits)
qed

lemma apply_event_text:
  assumes "i < length ps" and "ps ! i = Text t"
  shows "apply_event e ps ! i = Text t"
proof (cases e)
  case (Append p)
  with assms show ?thesis
    by (auto simp: append_part_def nth_append split: part.splits)
next
  case (Transition j s pl)
  with assms show ?thesis
    by (auto simp: transition_def nth_list_update split: part.splits option.splits)
qed

lemma apply_event_new:
  assumes "length ps \<le> i" and "i < length (apply_event e ps)"
  shows "(\<exists>t. apply_event e ps ! i = Text t)
       \<or> (\<exists>tp. apply_event e ps ! i = Tool tp \<and> state tp = InputStreaming)"
proof (cases e)
  case (Append p)
  with assms show ?thesis
    by (cases p) (auto simp: append_part_def nth_append split: if_splits)
next
  case (Transition j s pl)
  with assms show ?thesis
    by (auto simp: transition_def split: part.splits option.splits if_splits)
qed

lemma trace_text:
  "i < length ps \<Longrightarrow> ps ! i = Text t \<Longrightarrow> trace i es ps = []"
proof (induction es arbitrary: ps)
  case Nil
  then show ?case by (simp add: trace_def)
next
  case (Cons e es)
  have l: "i < length (apply_event e ps)"
    using Cons.prems(1) apply_event_length [of ps e] by simp
  have t: "apply_event e ps ! i = Text t"
    using Cons.prems by (rule apply_event_text)
  from Cons.IH [OF l t] l t show ?case
    by (simp add: trace_def state_at_def)
qed

lemma trace_tool:
  "i < length ps \<Longrightarrow> ps ! i = Tool tp \<Longrightarrow> follows (state tp) (trace i es ps)"
proof (induction es arbitrary: ps tp)
  case Nil
  then show ?case by (simp add: trace_def)
next
  case (Cons e es)
  have l: "i < length (apply_event e ps)"
    using Cons.prems(1) apply_event_length [of ps e] by simp
  from apply_event_tool [OF Cons.prems, of e] obtain tp'
    where t: "apply_event e ps ! i = Tool tp'"
      and s: "state tp' = state tp \<or> legal_transition (state tp) (state tp')"
    by (elim exE conjE)
  from Cons.IH [OF l t] have "follows (state tp') (trace i es (apply_event e ps))" .
  with l t s show ?case
    by (simp add: trace_def state_at_def)
qed

lemma trace_new:
  "length ps \<le> i \<Longrightarrow>
     trace i es ps = [] \<or> (\<exists>T. trace i es ps = InputStreaming # T \<and> follows InputStreaming T)"
proof (induction es arbitrary: ps)
  case Nil
  then show ?case by (simp add: trace_def)
next
  case (Cons e es)
  let ?ps = "apply_event e ps"
  have unfold: "trace i (e # es) ps = state_at i ?ps @ trace i es ?ps"
    by (simp add: trace_def)
  show ?case
  proof (cases "i < length ?ps")
    case False
    then have "state_at i ?ps = []" by (simp add: state_at_def)
    moreover from False have "length ?ps \<le> i" by simp
    ultimately show ?thesis
      using Cons.IH [of ?ps] unfold by simp
  next
    case True
    from apply_event_new [OF Cons.prems True] show ?thesis
    proof
      assume "\<exists>t. ?ps ! i = Text t"
      then obtain t where t: "?ps ! i = Text t" ..
      with True have "state_at i ?ps = []" by (simp add: state_at_def)
      with trace_text [OF True t] unfold show ?thesis by simp
    next
      assume "\<exists>tp. ?ps ! i = Tool tp \<and> state tp = InputStreaming"
      then obtain tp where t: "?ps ! i = Tool tp" and s: "state tp = InputStreaming"
        by (elim exE conjE)
      with True have "state_at i ?ps = [InputStreaming]" by (simp add: state_at_def)
      moreover from trace_tool [OF True t] s have "follows InputStreaming (trace i es ?ps)"
        by simp
      ultimately show ?thesis
        using unfold by simp
    qed
  qed
qed

text \<open>
  A replay with illegal events in it: the jump from \<open>input-streaming\<close> to
  \<open>output-error\<close>, the transition of a text part, the step back to \<open>input-streaming\<close>
  and the move from \<open>output-error\<close> to \<open>output-available\<close> all leave the message as it
  is.
\<close>

lemma observed_states_sample:
  "observed_states 1
     (snapshots
        [Append (Text ''Scanning.''),
         Append (Tool \<lparr>toolName = ''weather'', state = InputStreaming, tool_input = JNull,
                        tool_output = None, errorText = None\<rparr>),
         Transition 1 OutputError (ErrorPayload ''offline''),
         Transition 1 InputAvailable (InputPayload (JObject [(''location'', JString ''Titan'')])),
         Transition 0 InputAvailable (InputPayload JNull),
         Transition 1 InputStreaming (InputPayload JNull),
         Transition 1 OutputError (ErrorPayload ''offline''),
         Transition 1 OutputAvailable (OutputPayload (WearOut \<lparr>suggestions = []\<rparr>))] [])
   = [InputStreaming, InputAvailable, OutputError]"
  by code_simp

text \<open>
  Claim C2. Whatever events are applied to an empty message, the states observed for
  the part at any index form a prefix of \<open>input-streaming\<close>, \<open>input-available\<close>,
  \<open>output-available\<close> or of \<open>input-streaming\<close>, \<open>input-available\<close>, \<open>output-error\<close>:
  no state is skipped, none is revisited, and the two final states exclude each other.
\<close>

theorem tool_part_state_progression:
  "prefix (observed_states i (snapshots es []))
          [InputStreaming, InputAvailable, OutputAvailable]
   \<or> prefix (observed_states i (snapshots es []))
          [InputStreaming, InputAvailable, OutputError]"
proof -
  have obs: "observed_states i (snapshots es []) = remdups_adj (trace i es [])"
    by (simp add: observed_states_def trace_def)
  have "trace i es [] = []
      \<or> (\<exists>T. trace i es [] = InputStreaming # T \<and> follows InputStreaming T)"
    by (rule trace_new) simp
  then show ?thesis
  proof
    assume "trace i es [] = []"
    with obs show ?thesis by simp
  next
    assume "\<exists>T. trace i es [] = InputStreaming # T \<and> follows InputStreaming T"
    then obtain T where T: "trace i es [] = InputStreaming # T" and f: "follows InputStreaming T"
      by (elim exE conjE)
    from follows_progression [OF f] T obs show ?thesis by simp
  qed
qed


section \<open>The reasoning loop\<close>

lemma transition_last:
  assumes "legal_transition (state tp) s" and "with_payload tp s pl = Some tp'"
  shows "transition (length ps) s pl (ps @ [Tool tp]) = ps @ [Tool tp']"
  using assms by (simp add: transition_def)

lemma tool_call_step_unknown:
  "n \<notin> set toolNames \<Longrightarrow> tool_call_step n args ps g = (Inl (UnknownToolError n), g)"
  by (simp add: tool_call_step_def)

lemma tool_call_step_known:
  assumes "n \<in> set toolNames"
  shows "tool_call_step n args ps g =
     (case invoke n args g of
        (Inr out, g') \<Rightarrow>
          (Inr (ps @ [Tool \<lparr>toolName = n, state = OutputAvailable, tool_input = args,
                           tool_output = Some out, errorText = None\<rparr>]), g')
      | (Inl e, g') \<Rightarrow>
          (Inr (ps @ [Tool \<lparr>toolName = n, state = OutputError, tool_input = args,
                           tool_output = None, errorText = Some (error_message e)\<rparr>]), g'))"
proof -
  let ?tp0 = "\<lparr>toolName = n, state = InputStreaming, tool_input = JNull,
               tool_output = None, errorText = None\<rparr>"
  let ?tp1 = "\<lparr>toolName = n, state = InputAvailable, tool_input = args,
               tool_output = None, errorText = None\<rparr>"
  have a: "append_part (Tool ?tp0) ps = ps @ [Tool ?tp0]"
    by (simp add: append_part_def)
  have b: "transition (length ps) InputAvailable (InputPayload args) (ps @ [Tool ?tp0])
      = ps @ [Tool ?tp1]"
    by (rule transition_last) simp_all
  have c: "transition (length ps) OutputAvailable (OutputPayload out) (ps @ [Tool ?tp1])
      = ps @ [Tool \<lparr>toolName = n, state = OutputAvailable, tool_input = args,
                     tool_output = Some out, errorText = None\<rparr>]" for out
    by (rule transition_last) simp_all
  have d: "transition (length ps) OutputError (ErrorPayload t) (ps @ [Tool ?tp1])
      = ps @ [Tool \<lparr>toolName = n, state = OutputError, tool_input = args,
                     tool_output = None, errorText = Some t\<rparr>]" for t
    by (rule transition_last) simp_all
  show ?thesis
    using assms unfolding tool_call_step_def Let_def a b
    by (simp add: c d split: prod.splits sum.splits)
qed

lemma tool_call_step_appends:
  assumes "tool_call_step n args ps g = (Inr ps', g')"
  shows "\<exists>q. ps' = ps @ [q]"
proof (cases "n \<in> set toolNames")
  case True
  from assms show ?thesis
    unfolding tool_call_step_known [OF True]
    by (auto split: prod.splits sum.splits)
next
  case False
  with assms show ?thesis
    by (simp add: tool_call_step_unknown)
qed

lemma tool_call_step_failure:
  assumes "tool_call_step n args ps g = (Inl e, g')"
  shows "n \<notin> set toolNames"
proof
  assume "n \<in> set toolNames"
  from assms show False
    unfolding tool_call_step_known [OF \<open>n \<in> set toolNames\<close>]
    by (auto split: prod.splits sum.splits)
qed

lemma append_part_Text: "append_part (Text t) ps = ps @ [Text t]"
  by (simp add: append_part_def)

lemma reasoning_loop_ends:
  assumes "length (steps r) < n"
  shows "\<exists>r' g'. reasoning_loop (stepCountIs n) p ms r g = Some (r', g')
           \<and> length (steps r') \<le> n
           \<and> (phase r' = Done \<or> (\<exists>e. failure r' = Some e))
           \<and> (\<exists>qs. produced r' = produced r @ qs)
           \<and> (registered_only p \<longrightarrow> failure r = None \<longrightarrow> phase r' = Done \<and> failure r' = None)"
  using assms
proof (induction "n - length (steps r)" arbitrary: r g)
  case 0
  then show ?case by simp
next
  case (Suc k)
  show ?case
  proof (cases "p ms (produced r)")
    case Stop
    then show ?thesis
      using Suc.prems by (subst reasoning_loop.simps) simp
  next
    case (EmitText t)
    let ?r = "r\<lparr>steps := steps r @ [EmitText t], produced := append_part (Text t) (produced r)\<rparr>"
    show ?thesis
    proof (cases "Suc (length (steps r)) = n")
      case True
      with EmitText show ?thesis
        by (subst reasoning_loop.simps) (simp add: stepCountIs_def append_part_Text)
    next
      case False
      with Suc.prems have lt: "length (steps ?r) < n" by simp
      from Suc.hyps(2) have keq: "k = n - length (steps ?r)" by simp
      from Suc.hyps(1) [OF keq lt, of g] obtain r' g' where
        run: "reasoning_loop (stepCountIs n) p ms ?r g = Some (r', g')"
        and props: "length (steps r') \<le> n" "phase r' = Done \<or> (\<exists>e. failure r' = Some e)"
          "\<exists>qs. produced r' = produced ?r @ qs"
          "registered_only p \<longrightarrow> failure ?r = None \<longrightarrow> phase r' = Done \<and> failure r' = None"
        by auto
      have "reasoning_loop (stepCountIs n) p ms r g = Some (r', g')"
        using EmitText False run
        by (subst reasoning_loop.simps) (simp add: stepCountIs_def)
      moreover from props(3) have "\<exists>qs. produced r' = produced r @ qs"
        by (auto simp: append_part_Text)
      ultimately show ?thesis
        using props by simp
    qed
  next
    case (CallTool m args)
    show ?thesis
    proof (cases "tool_call_step m args (produced r) g")
      case (Pair res g1)
      show ?thesis
      proof (cases res)
        case (Inl e)
        with Pair have "m \<notin> set toolNames"
          using tool_call_step_failure by blast
        with CallTool have "\<not> registered_only p"
          by (auto simp: registered_only_def)
        then show ?thesis
          using CallTool Pair Inl Suc.prems
          by (subst reasoning_loop.simps) simp
      next
        case (Inr ps)
        let ?r = "r\<lparr>steps := steps r @ [CallTool m args], produced := ps\<rparr>"
        from Pair Inr obtain q where ps: "ps = produced r @ [q]"
          using tool_call_step_appends by blast
        show ?thesis
        proof (cases "Suc (length (steps r)) = n")
          case True
          with CallTool Pair Inr ps show ?thesis
            by (subst reasoning_loop.simps) (simp add: stepCountIs_def)
        next
          case False
          with Suc.prems have lt: "length (steps ?r) < n" by simp
          from Suc.hyps(2) have keq: "k = n - length (steps ?r)" by simp
          from Suc.hyps(1) [OF keq lt, of g1] obtain r' g' where
            run: "reasoning_loop (stepCountIs n) p ms ?r g1 = Some (r', g')"
            and props: "length (steps r') \<le> n" "phase r' = Done \<or> (\<exists>e. failure r' = Some e)"
              "\<exists>qs. produced r' = produced ?r @ qs"
              "registered_only p \<longrightarrow> failure ?r = None \<longrightarrow> phase r' = Done \<and> failure r' = None"
            by auto
          have "reasoning_loop (stepCountIs n) p ms r g = Some (r', g')"
            using CallTool Pair Inr False run
            by (subst reasoning_loop.simps) (simp add: stepCountIs_def)
          moreover from props(3) ps have "\<exists>qs. produced r' = produced r @ qs"
            by auto
          ultimately show ?thesis
            using props by simp
        qed
      qed
    qed
  qed
qed

text \<open>
  Claim C1. Every response ends, after at most 7 reasoning steps, and it ends in
  \<open>Done\<close> unless it was aborted by a response-level failure.
\<close>

theorem POST_at_most_seven_steps:
  "\<exists>r g'. POST p req g = Some (r, g') \<and> length (steps r) \<le> 7
         \<and> (phase r = Done \<or> (\<exists>e. failure r = Some e))"
proof -
  have "length (steps \<lparr>phase = Reasoning, steps = [], produced = [], failure = None\<rparr>) < 7"
    by simp
  from reasoning_loop_ends [OF this, of p "messages req" g]
  show ?thesis
    unfolding POST_def streamText_def POST_options_def by auto
qed






lemma POST_seven_texts:
  "map_option fst (POST (\<lambda>ms ps. EmitText ''..'') \<lparr>messages = [], other_fields = []\<rparr> (\<lambda>n. 1 / 2))
     = Some \<lparr>phase = Done,
             steps = [EmitText ''..'', EmitText ''..'', EmitText ''..'', EmitText ''..'',
                      EmitText ''..'', EmitText ''..'', EmitText ''..''],
             produced = [Text ''..'', Text ''..'', Text ''..'', Text ''..'', Text ''..'',
                         Text ''..'', Text ''..''],
             failure = None\<rparr>"
  by code_simp


lemma wear_then_stop_run:
  "map_option fst (POST wear_then_stop \<lparr>messages = [], other_fields = []\<rparr> (\<lambda>n. 1 / 2))
     = Some \<lparr>phase = Done,
             steps = [CallTool ''whatToWear'' (JObject four_suggestions), Stop],
             produced =
               [Tool \<lparr>toolName = ''whatToWear'', state = OutputError,
                      tool_input = JObject four_suggestions, tool_output = None,
                      errorText = Some ''Invalid arguments: suggestions: expected at most 3 items; ''\<rparr>],
             failure = None\<rparr>"
  by code_simp

end
